theory Spec2Isabelle
  imports Complex_Main
begin

section \<open>Domain model (interfaces/domain.ts, interfaces/http.ts)\<close>

text \<open>
  JavaScript numbers that hold ids, years, page numbers and page sizes are modelled as
  unbounded integers: the HTTP layer obtains them from \<^verbatim>\<open>parseInt\<close>, the repository
  from a counter. Strings are lists of 8-bit characters, read as ASCII; characters
  outside ASCII are left alone by \<open>toLowerCase\<close> and are never white space. The one
  place where the code can produce a number that is not an integer is the quotient in
  \<^verbatim>\<open>Math.ceil(totalItems / pageSize)\<close>, so its result has the type \<open>number\<close> below.
\<close>

datatype number = Finite int | Infinity | NaN

record IBook =
  id' :: int
  title :: string
  author :: string
  yearOfRelease :: int
  isbn :: string
  isBorrowed :: bool

record IPaginationResult =
  totalItems :: nat
  totalPages :: number
  currentPage :: int
  pageSize :: int

text \<open>\<^verbatim>\<open>IBookCreationData = Omit<IBook, 'id' | 'isBorrowed'>\<close>\<close>

record IBookCreationData =
  title :: string
  author :: string
  yearOfRelease :: int
  isbn :: string

text \<open>\<^verbatim>\<open>IBookUpdateData = Partial<IBookCreationData>\<close>: \<open>None\<close> is an absent key.\<close>

record IBookUpdateData =
  title :: "string option"
  author :: "string option"
  yearOfRelease :: "int option"
  isbn :: "string option"

text \<open>The \<^verbatim>\<open>filters\<close> object the HTTP layer builds from the query string: every entry is
  a string or \<^verbatim>\<open>undefined\<close>.\<close>

record filters =
  title :: "string option"
  author :: "string option"
  year :: "string option"
  isBorrowed :: "string option"

record IBookQuery =
  title :: "string option"
  author :: "string option"
  year :: "string option"
  isBorrowed :: "string option"
  page :: "string option"
  size :: "string option"

record IBookResponse =
  books :: "IBook list"
  pagination :: IPaginationResult

text \<open>The two module-level variables of the repository.\<close>

record repository =
  books :: "IBook list"
  nextBookId :: int

section \<open>JavaScript primitives used by the code\<close>

subsection \<open>Strings\<close>

definition upperAZ :: string where
  "upperAZ = ''ABCDEFGHIJKLMNOPQRSTUVWXYZ''"

definition lowerAZ :: string where
  "lowerAZ = ''abcdefghijklmnopqrstuvwxyz''"

definition lowerChar :: "char \<Rightarrow> char" where
  "lowerChar c = (case map_of (zip upperAZ lowerAZ) c of Some d \<Rightarrow> d | None \<Rightarrow> c)"

definition toLowerCase :: "string \<Rightarrow> string" where
  "toLowerCase s = map lowerChar s"

fun startsWith :: "string \<Rightarrow> string \<Rightarrow> bool" where
  "startsWith s [] = True"
| "startsWith [] (c # t) = False"
| "startsWith (d # s) (c # t) = (d = c \<and> startsWith s t)"

text \<open>\<^verbatim>\<open>s.includes(t)\<close>: \<open>t\<close> occurs in \<open>s\<close> as a contiguous run.\<close>

fun includes_str :: "string \<Rightarrow> string \<Rightarrow> bool" where
  "includes_str [] t = (t = [])"
| "includes_str (c # s) t = (startsWith (c # s) t \<or> includes_str s t)"

subsection \<open>Numbers and strings\<close>

definition digitChars :: string where
  "digitChars = ''0123456789''"

definition isDigit :: "char \<Rightarrow> bool" where
  "isDigit c = (c \<in> set digitChars)"

definition digitValue :: "char \<Rightarrow> int" where
  "digitValue c = (case map_of (zip digitChars [0, 1, 2, 3, 4, 5, 6, 7, 8, 9]) c of
                     Some d \<Rightarrow> d | None \<Rightarrow> 0)"

text \<open>Tab, line feed, vertical tab, form feed, carriage return and space.\<close>

definition isWhiteSpace :: "char \<Rightarrow> bool" where
  "isWhiteSpace c = (of_char c \<in> {9, 10, 11, 12, 13, 32 :: nat})"

definition digitsValue :: "string \<Rightarrow> int" where
  "digitsValue ds = foldl (\<lambda>acc c. 10 * acc + digitValue c) 0 ds"

text \<open>\<^verbatim>\<open>parseInt(s, 10)\<close>: leading white space is skipped, one sign is read, then the
  longest run of decimal digits; what follows is ignored. \<open>None\<close> is \<^verbatim>\<open>NaN\<close>.\<close>

definition parseInt10 :: "string \<Rightarrow> int option" where
  "parseInt10 s =
     (let s1 = dropWhile isWhiteSpace s;
          sign = (case s1 of c # r \<Rightarrow> if c = CHR ''-'' then - 1 else 1 | [] \<Rightarrow> (1 :: int));
          s2 = (case s1 of c # r \<Rightarrow> if c = CHR ''-'' \<or> c = CHR ''+'' then r else s1 | [] \<Rightarrow> s1);
          z = takeWhile isDigit s2
      in if z = [] then None else Some (sign * digitsValue z))"

fun natDigits :: "nat \<Rightarrow> string" where
  "natDigits n = (if n < 10 then [digitChars ! n]
                  else natDigits (n div 10) @ [digitChars ! (n mod 10)])"

text \<open>\<^verbatim>\<open>String(n)\<close> for an integer \<open>n\<close>.\<close>

definition String_of :: "int \<Rightarrow> string" where
  "String_of n = (if n < 0 then CHR ''-'' # natDigits (nat (- n)) else natDigits (nat n))"

text \<open>\<^verbatim>\<open>Math.ceil(a / b)\<close> for a length \<open>a\<close> and an integer \<open>b\<close>; division by zero gives
  \<^verbatim>\<open>NaN\<close> (0/0) or \<^verbatim>\<open>Infinity\<close>.\<close>

definition Math_ceil_div :: "nat \<Rightarrow> int \<Rightarrow> number" where
  "Math_ceil_div a b =
     (if b = 0 then (if a = 0 then NaN else Infinity)
      else Finite \<lceil>real a / real_of_int b\<rceil>)"

subsection \<open>Arrays\<close>

text \<open>\<^verbatim>\<open>findIndex\<close>; \<open>None\<close> is the result -1.\<close>

fun findIndex :: "('a \<Rightarrow> bool) \<Rightarrow> 'a list \<Rightarrow> nat option" where
  "findIndex P [] = None"
| "findIndex P (x # xs) = (if P x then Some 0 else map_option Suc (findIndex P xs))"

text \<open>\<^verbatim>\<open>xs.slice(start, end)\<close> on integers: a negative index counts from the end of the
  array, and both indices are clamped to the array.\<close>

definition slice :: "'a list \<Rightarrow> int \<Rightarrow> int \<Rightarrow> 'a list" where
  "slice xs start end' =
     (let len = int (length xs);
          k = (if start < 0 then max (len + start) 0 else min start len);
          final = (if end' < 0 then max (len + end') 0 else min end' len)
      in take (nat (final - k)) (drop (nat k) xs))"

text \<open>\<^verbatim>\<open>Math.max(...xs)\<close> of a non-empty array; \<open>None\<close> is \<^verbatim>\<open>-Infinity\<close>.\<close>

fun Math_max :: "int list \<Rightarrow> int option" where
  "Math_max [] = None"
| "Math_max (x # xs) = Some (fold max xs x)"

text \<open>\<^verbatim>\<open>a || b\<close> on an optional string and on an optional number: the empty string, 0 and
  \<^verbatim>\<open>undefined\<close> are falsy.\<close>

fun truthyStr :: "string option \<Rightarrow> bool" where
  "truthyStr None = False"
| "truthyStr (Some s) = (s \<noteq> [])"

fun truthyNum :: "int option \<Rightarrow> bool" where
  "truthyNum None = False"
| "truthyNum (Some n) = (n \<noteq> 0)"

definition orStr :: "string option \<Rightarrow> string \<Rightarrow> string" where
  "orStr a b = (if truthyStr a then the a else b)"

definition orNum :: "int option \<Rightarrow> int \<Rightarrow> int" where
  "orNum a b = (if truthyNum a then the a else b)"

section \<open>The repository (model/bookRepository)\<close>

definition mkBook :: "int \<Rightarrow> string \<Rightarrow> string \<Rightarrow> int \<Rightarrow> string \<Rightarrow> bool \<Rightarrow> IBook" where
  "mkBook i t a y n br =
     \<lparr>IBook.id' = i, IBook.title = t, IBook.author = a, IBook.yearOfRelease = y,
      IBook.isbn = n, IBook.isBorrowed = br\<rparr>"

definition initialBooks :: "IBook list" where
  "initialBooks =
    [mkBook 101 ''The Great Gatsby'' ''F. Scott Fitzgerald'' 1925 ''978-0743273565'' False,
     mkBook 102 ''To Kill a Mockingbird'' ''Harper Lee'' 1960 ''978-0061120084'' True,
     mkBook 103 ''1984'' ''George Orwell'' 1949 ''978-0451524935'' False,
     mkBook 104 ''The Hobbit'' ''J.R.R. Tolkien'' 1937 ''978-0618260300'' False,
     mkBook 105 ''Dune'' ''Frank Herbert'' 1965 ''978-0441172719'' True,
     mkBook 106 ''A Game of Thrones'' ''George R.R. Martin'' 1996 ''978-0553103540'' False,
     mkBook 107 ''The Fellowship of the Ring'' ''J.R.R. Tolkien'' 1954 ''978-0618346257'' True,
     mkBook 108 ''A Thousand Splendid Suns'' ''Khaled Hosseini'' 2007 ''978-1594489501'' False,
     mkBook 109 ''The Martian'' ''Andy Weir'' 2011 ''978-0804139021'' True,
     mkBook 110 ''Where the Crawdads Sing'' ''Delia Owens'' 2018 ''978-0735219090'' False,
     mkBook 111 ''Gone Girl'' ''Gillian Flynn'' 2012 ''978-0307588371'' False,
     mkBook 112 ''The Silent Patient'' ''Alex Michaelides'' 2019 ''978-1250301691'' True,
     mkBook 113 ''The Nightingale'' ''Kristin Hannah'' 2015 ''978-0312577239'' False,
     mkBook 114 ''The Book Thief'' ''Markus Zusak'' 2005 ''978-0375842207'' False,
     mkBook 115 ''The Old Man and the Sea'' ''Ernest Hemingway'' 1952 ''978-0684801223'' True,
     mkBook 116 ''Of Mice and Men'' ''John Steinbeck'' 1937 ''978-0140177398'' False,
     mkBook 117 ''The Hunger Games'' ''Suzanne Collins'' 2008 ''978-0439023528'' False,
     mkBook 118 ''The Maze Runner'' ''James Dashner'' 2009 ''978-0385737944'' True,
     mkBook 119 ''The Two Towers'' ''J.R.R. Tolkien'' 1954 ''978-0618346264'' False,
     mkBook 120 ''Fahrenheit 451'' ''Ray Bradbury'' 1953 ''978-1451673319'' False]"

text \<open>The module's state when it is loaded:
  \<^verbatim>\<open>nextBookId = Math.max(...books.map(b => b.id)) + 1\<close>. The literal is not empty, so
  the maximum is a number.\<close>

definition initialRepository :: repository where
  "initialRepository =
     \<lparr>repository.books = initialBooks,
      nextBookId = (case Math_max (map id' initialBooks) of Some m \<Rightarrow> m + 1 | None \<Rightarrow> 0)\<rparr>"

definition createBook :: "IBookCreationData \<Rightarrow> repository \<Rightarrow> IBook \<times> repository" where
  "createBook data st =
     (\<lparr>IBook.id' = nextBookId st,
       IBook.title = IBookCreationData.title data,
       IBook.author = IBookCreationData.author data,
       IBook.yearOfRelease = IBookCreationData.yearOfRelease data,
       IBook.isbn = IBookCreationData.isbn data,
       IBook.isBorrowed = False\<rparr>,
      st\<lparr>nextBookId := nextBookId st + 1\<rparr>)"



definition addBook :: "IBookCreationData \<Rightarrow> repository \<Rightarrow> IBook \<times> repository" where
  "addBook bookData st =
     (case createBook bookData st of
        (newBook, st1) \<Rightarrow> (newBook, st1\<lparr>repository.books := repository.books st1 @ [newBook]\<rparr>))"

text \<open>\<^verbatim>\<open>updateBook\<close>: \<open>None\<close> is the result \<^verbatim>\<open>null\<close>.\<close>

definition updateBook :: "int \<Rightarrow> IBookUpdateData \<Rightarrow> repository \<Rightarrow> IBook option \<times> repository" where
  "updateBook i updateData st =
     (case findIndex (\<lambda>b. id' b = i) (repository.books st) of
        None \<Rightarrow> (None, st)
      | Some index \<Rightarrow>
          (let old = repository.books st ! index;
               new = old\<lparr>IBook.title := orStr (IBookUpdateData.title updateData) (IBook.title old),
                         IBook.author := orStr (IBookUpdateData.author updateData) (IBook.author old),
                         IBook.yearOfRelease :=
                           orNum (IBookUpdateData.yearOfRelease updateData) (IBook.yearOfRelease old),
                         IBook.isbn := orStr (IBookUpdateData.isbn updateData) (IBook.isbn old)\<rparr>
           in (Some new, st\<lparr>repository.books := (repository.books st)[index := new]\<rparr>)))"

definition deleteBook :: "int \<Rightarrow> repository \<Rightarrow> bool \<times> repository" where
  "deleteBook i st =
     (let initialLength = length (repository.books st);
          bs = filter (\<lambda>b. id' b \<noteq> i) (repository.books st)
      in (length bs < initialLength, st\<lparr>repository.books := bs\<rparr>))"

text \<open>The four filters of \<^verbatim>\<open>getBooksPaginatedAndFiltered\<close>, in the order of the code. The
  first three are guarded by the truthiness of the value, the last by
  \<^verbatim>\<open>isBorrowed !== undefined\<close>.\<close>

definition applyFilters :: "filters \<Rightarrow> IBook list \<Rightarrow> IBook list" where
  "applyFilters f bs =
     (let fb1 = (if truthyStr (filters.title f)
                 then filter (\<lambda>b. includes_str (toLowerCase (IBook.title b))
                                            (toLowerCase (the (filters.title f)))) bs
                 else bs);
          fb2 = (if truthyStr (filters.author f)
                 then filter (\<lambda>b. includes_str (toLowerCase (IBook.author b))
                                            (toLowerCase (the (filters.author f)))) fb1
                 else fb1);
          fb3 = (if truthyStr (filters.year f)
                 then filter (\<lambda>b. String_of (IBook.yearOfRelease b) = the (filters.year f)) fb2
                 else fb2);
          fb4 = (case filters.isBorrowed f of
                   None \<Rightarrow> fb3
                 | Some s \<Rightarrow>
                     (let isBorrowedBool = (toLowerCase s = ''true'')
                      in filter (\<lambda>b. IBook.isBorrowed b = isBorrowedBool) fb3))
      in fb4)"

definition getBooksPaginatedAndFiltered ::
    "filters \<Rightarrow> int \<Rightarrow> int \<Rightarrow> repository \<Rightarrow> IBookResponse" where
  "getBooksPaginatedAndFiltered f pg pgSize st =
     (let filteredBooks = applyFilters f (repository.books st);
          totalItems = length filteredBooks;
          totalPages = Math_ceil_div totalItems pgSize;
          startIndex = (pg - 1) * pgSize;
          endIndex = startIndex + pgSize;
          paginatedBooks = slice filteredBooks startIndex endIndex
      in \<lparr>IBookResponse.books = paginatedBooks,
          pagination = \<lparr>totalItems = totalItems, totalPages = totalPages,
                        currentPage = pg, pageSize = pgSize\<rparr>\<rparr>)"

section \<open>The HTTP layer (the routes on /api/books/:id and /api/books)\<close>

datatype body = ErrorBody string | BookBody IBook | ListBody IBookResponse | EmptyBody

record response =
  status :: nat
  body :: body

text \<open>\<^verbatim>\<open>res.json(x)\<close> without \<^verbatim>\<open>res.status\<close> answers 200.\<close>

definition json :: "nat \<Rightarrow> body \<Rightarrow> response" where
  "json code b = \<lparr>status = code, body = b\<rparr>"







text \<open>A template literal prints an absent query parameter as \<^verbatim>\<open>undefined\<close>.\<close>

definition received :: "string option \<Rightarrow> string" where
  "received p = (case p of None \<Rightarrow> ''undefined'' | Some s \<Rightarrow> s)"

text \<open>\<^verbatim>\<open>app.get('/api/books')\<close>: the only caller of the query in the repository. It
  hands over a page and a page size that are integers from 1 on.\<close>

definition listBooksRoute :: "IBookQuery \<Rightarrow> repository \<Rightarrow> response" where
  "listBooksRoute q st =
     (case (parseInt10 (orStr (IBookQuery.page q) ''1''),
            parseInt10 (orStr (IBookQuery.size q) ''10'')) of
        (None, _) \<Rightarrow>
          json 400 (ErrorBody (''Invalid 'page' number provided. Must be a positive integer (e.g., 1, 2, 3...). Received: '' @ received (IBookQuery.page q)))
      | (Some pageNum, sz) \<Rightarrow>
          if pageNum < 1
          then json 400 (ErrorBody (''Invalid 'page' number provided. Must be a positive integer (e.g., 1, 2, 3...). Received: '' @ received (IBookQuery.page q)))
          else (case sz of
                  None \<Rightarrow>
                    json 400 (ErrorBody (''Invalid 'size' (page size) provided. Must be a positive integer (e.g., 1, 10, 50...). Received: '' @ received (IBookQuery.size q)))
                | Some pgSize \<Rightarrow>
                    if pgSize < 1
                    then json 400 (ErrorBody (''Invalid 'size' (page size) provided. Must be a positive integer (e.g., 1, 10, 50...). Received: '' @ received (IBookQuery.size q)))
                    else json 200 (ListBody
                           (getBooksPaginatedAndFiltered
                              \<lparr>filters.title = IBookQuery.title q, filters.author = IBookQuery.author q,
                               filters.year = IBookQuery.year q,
                               filters.isBorrowed = IBookQuery.isBorrowed q\<rparr>
                              pageNum pgSize st))))"

section \<open>Histories of the store\<close>

text \<open>The store is private to the repository module: its states are those reached from
  the loaded module by calls of the three exported functions that write to it, with any
  arguments.\<close>

datatype operation =
    AddBook IBookCreationData
  | UpdateBook int IBookUpdateData
  | DeleteBook int

fun step :: "operation \<Rightarrow> repository \<Rightarrow> repository" where
  "step (AddBook d) st = snd (addBook d st)"
| "step (UpdateBook i u) st = snd (updateBook i u st)"
| "step (DeleteBook i) st = snd (deleteBook i st)"

fun exec :: "operation list \<Rightarrow> repository \<Rightarrow> repository" where
  "exec [] st = st"
| "exec (x # ops) st = exec ops (step x st)"

text \<open>The ids that the calls of \<open>addBook\<close> in a history returned, in order.\<close>

fun assignedIds :: "operation list \<Rightarrow> repository \<Rightarrow> int list" where
  "assignedIds [] st = []"
| "assignedIds (AddBook d # ops) st = id' (fst (addBook d st)) # assignedIds ops (step (AddBook d) st)"
| "assignedIds (x # ops) st = assignedIds ops (step x st)"

text \<open>The invariant of the store: ids are pairwise different and below the counter.\<close>

definition storeInv :: "repository \<Rightarrow> bool" where
  "storeInv st = (distinct (map id' (repository.books st)) \<and>
                  (\<forall>b \<in> set (repository.books st). id' b < nextBookId st))"

section \<open>The specification's wording, for comparison\<close>



definition noFilters :: filters where
  "noFilters = \<lparr>filters.title = None, filters.author = None, filters.year = None,
                filters.isBorrowed = None\<rparr>"

section \<open>Array and store lemmas\<close>

lemma findIndex_None_iff: "findIndex P xs = None \<longleftrightarrow> (\<forall>x \<in> set xs. \<not> P x)"
  by (induction xs) auto

lemma findIndex_Some:
  "findIndex P xs = Some i \<Longrightarrow> i < length xs \<and> P (xs ! i) \<and> (\<forall>j < i. \<not> P (xs ! j))"
proof (induction xs arbitrary: i)
  case Nil
  then show ?case by simp
next
  case (Cons x xs)
  show ?case
  proof (cases "P x")
    case True
    with Cons.prems show ?thesis by simp
  next
    case False
    with Cons.prems obtain k where k: "findIndex P xs = Some k" "i = Suc k"
      by auto
    from Cons.IH [OF k(1)] False k(2) show ?thesis
      by (auto simp: nth_Cons split: nat.splits)
  qed
qed

lemma filter_absent: "\<forall>x \<in> set xs. P x \<Longrightarrow> filter P xs = xs"
  by (induction xs) auto

lemma findIndex_member: "x \<in> set xs \<Longrightarrow> P x \<Longrightarrow> \<exists>k. findIndex P xs = Some k"
  using findIndex_None_iff [of P xs] by (cases "findIndex P xs") auto

lemma orStr_cases:
  "orStr a d = (case a of None \<Rightarrow> d | Some s \<Rightarrow> if s = [] then d else s)"
  by (cases a) (auto simp: orStr_def)

lemma orNum_cases:
  "orNum a d = (case a of None \<Rightarrow> d | Some n \<Rightarrow> if n = 0 then d else n)"
  by (cases a) (auto simp: orNum_def)

lemma remove1_filter_id:
  "distinct (map id' xs) \<Longrightarrow> b \<in> set xs \<Longrightarrow> filter (\<lambda>x. id' x \<noteq> id' b) xs = remove1 b xs"
proof (induction xs)
  case Nil
  then show ?case by simp
next
  case (Cons x xs)
  show ?case
  proof (cases "x = b")
    case True
    with Cons.prems have "id' b \<notin> id' ` set xs" by simp
    then have "\<forall>y \<in> set xs. id' y \<noteq> id' b" by (metis imageI)
    then have "filter (\<lambda>x. id' x \<noteq> id' b) xs = xs" by (rule filter_absent)
    with True show ?thesis by simp
  next
    case False
    with Cons.prems have "b \<in> set xs" "id' x \<noteq> id' b" by auto
    with Cons False show ?thesis by auto
  qed
qed

lemma step_inv: "storeInv st \<Longrightarrow> storeInv (step x st)"
proof (cases x)
  case (AddBook d)
  assume "storeInv st"
  then show ?thesis using AddBook
    by (auto simp: storeInv_def addBook_def createBook_def)
next
  case (UpdateBook i u)
  assume inv: "storeInv st"
  show ?thesis
  proof (cases "findIndex (\<lambda>b. id' b = i) (repository.books st)")
    case None
    with inv UpdateBook show ?thesis by (simp add: updateBook_def)
  next
    case (Some k)
    from findIndex_Some [OF Some] have k: "k < length (repository.books st)" by simp
    let ?new = "(repository.books st ! k)\<lparr>IBook.title := orStr (IBookUpdateData.title u) (IBook.title (repository.books st ! k)),
                         IBook.author := orStr (IBookUpdateData.author u) (IBook.author (repository.books st ! k)),
                         IBook.yearOfRelease :=
                           orNum (IBookUpdateData.yearOfRelease u) (IBook.yearOfRelease (repository.books st ! k)),
                         IBook.isbn := orStr (IBookUpdateData.isbn u) (IBook.isbn (repository.books st ! k))\<rparr>"
    have ids: "map id' ((repository.books st)[k := ?new]) = map id' (repository.books st)"
      using k by (simp add: map_update list_update_same_conv)
    have "\<forall>b \<in> set ((repository.books st)[k := ?new]). id' b < nextBookId st"
    proof
      fix b assume "b \<in> set ((repository.books st)[k := ?new])"
      then have "id' b \<in> set (map id' ((repository.books st)[k := ?new]))" by simp
      with ids have "id' b \<in> set (map id' (repository.books st))" by simp
      with inv show "id' b < nextBookId st" by (auto simp: storeInv_def)
    qed
    with inv ids Some UpdateBook show ?thesis
      by (simp add: updateBook_def storeInv_def Let_def)
  qed
next
  case (DeleteBook i)
  assume "storeInv st"
  then show ?thesis using DeleteBook
    by (auto simp: storeInv_def deleteBook_def Let_def distinct_map_filter)
qed

lemma initial_inv: "storeInv initialRepository"
  by (simp add: storeInv_def initialRepository_def initialBooks_def mkBook_def)

lemma exec_inv: "storeInv st \<Longrightarrow> storeInv (exec ops st)"
  by (induction ops arbitrary: st) (auto simp: step_inv)

subsection \<open>The counter\<close>

lemma step_next_mono: "nextBookId st \<le> nextBookId (step x st)"
  by (cases x) (auto simp: addBook_def createBook_def updateBook_def deleteBook_def Let_def
                     split: option.splits)

lemma exec_next_mono: "nextBookId st \<le> nextBookId (exec ops st)"
proof (induction ops arbitrary: st)
  case Nil
  show ?case by simp
next
  case (Cons x ops)
  have "nextBookId st \<le> nextBookId (step x st)" by (rule step_next_mono)
  also have "\<dots> \<le> nextBookId (exec ops (step x st))" by (rule Cons.IH)
  finally show ?case by simp
qed

lemma assignedIds_bounds:
  "\<forall>j \<in> set (assignedIds ops st). nextBookId st \<le> j \<and> j < nextBookId (exec ops st)"
proof (induction ops arbitrary: st)
  case Nil
  show ?case by simp
next
  case (Cons x ops)
  have m: "nextBookId st \<le> nextBookId (step x st)" by (rule step_next_mono)
  from Cons.IH [of "step x st"] m
  have rest: "\<forall>j \<in> set (assignedIds ops (step x st)).
                 nextBookId st \<le> j \<and> j < nextBookId (exec ops (step x st))"
    by fastforce
  show ?case
  proof (cases x)
    case (AddBook d)
    have "nextBookId st < nextBookId (step (AddBook d) st)"
      by (simp add: addBook_def createBook_def)
    also have "\<dots> \<le> nextBookId (exec ops (step (AddBook d) st))" by (rule exec_next_mono)
    finally have "nextBookId st < nextBookId (exec ops (step (AddBook d) st))" .
    moreover have "id' (fst (addBook d st)) = nextBookId st"
      by (simp add: addBook_def createBook_def)
    ultimately show ?thesis using rest AddBook by simp
  next
    case (UpdateBook i u)
    with rest show ?thesis by simp
  next
    case (DeleteBook i)
    with rest show ?thesis by simp
  qed
qed

lemma assignedIds_increasing: "sorted_wrt (<) (assignedIds ops st)"
proof (induction ops arbitrary: st)
  case Nil
  show ?case by simp
next
  case (Cons x ops)
  show ?case
  proof (cases x)
    case (AddBook d)
    have "nextBookId (step (AddBook d) st) = nextBookId st + 1"
      "id' (fst (addBook d st)) = nextBookId st"
      by (simp_all add: addBook_def createBook_def)
    with assignedIds_bounds [of ops "step (AddBook d) st"]
    have "\<forall>j \<in> set (assignedIds ops (step (AddBook d) st)). id' (fst (addBook d st)) < j"
      by fastforce
    with Cons.IH [of "step (AddBook d) st"] AddBook show ?thesis by simp
  next
    case (UpdateBook i u)
    with Cons.IH show ?thesis by simp
  next
    case (DeleteBook i)
    with Cons.IH show ?thesis by simp
  qed
qed

lemma initial_next: "nextBookId initialRepository = 121"
  by (simp add: initialRepository_def initialBooks_def mkBook_def)

lemma initial_max: "Max (set (map id' initialBooks)) = 120"
  by (simp add: initialBooks_def mkBook_def)

subsection \<open>Slices and page counts\<close>






subsection \<open>Strings\<close>



lemma lowerChar_t: "lowerChar c = CHR ''t'' \<longleftrightarrow> c = CHR ''t'' \<or> c = CHR ''T''"
  by (simp add: lowerChar_def upperAZ_def lowerAZ_def)

lemma lowerChar_r: "lowerChar c = CHR ''r'' \<longleftrightarrow> c = CHR ''r'' \<or> c = CHR ''R''"
  by (simp add: lowerChar_def upperAZ_def lowerAZ_def)

lemma lowerChar_u: "lowerChar c = CHR ''u'' \<longleftrightarrow> c = CHR ''u'' \<or> c = CHR ''U''"
  by (simp add: lowerChar_def upperAZ_def lowerAZ_def)

lemma lowerChar_e: "lowerChar c = CHR ''e'' \<longleftrightarrow> c = CHR ''e'' \<or> c = CHR ''E''"
  by (simp add: lowerChar_def upperAZ_def lowerAZ_def)

lemma toLowerCase_true:
  "toLowerCase s = ''true'' \<longleftrightarrow>
     list_all2 (\<lambda>c l. c \<in> set l) s [''tT'', ''rR'', ''uU'', ''eE'']"
  by (auto simp: toLowerCase_def list_all2_Cons2 lowerChar_t lowerChar_r lowerChar_u lowerChar_e)

lemma set_slice: "set (slice xs a b) \<subseteq> set xs"
proof -
  have "set (take n (drop k xs)) \<subseteq> set xs" for n k
    using set_take_subset [of n "drop k xs"] set_drop_subset [of k xs] by blast
  then show ?thesis by (simp add: slice_def Let_def)
qed

subsection \<open>Decimal numerals: \<open>String_of\<close> and \<open>parseInt10\<close>\<close>

declare natDigits.simps [simp del]














subsection \<open>The filters\<close>



section \<open>The claims\<close>

text \<open>
  C9. When \<open>updateBook\<close> or \<open>deleteBook\<close> is called with an id that no record of the
  store has, the call returns its not-found value (\<open>None\<close>, the \<^verbatim>\<open>null\<close> of the code,
  for the update and \<open>False\<close> for the delete) and the store after the call is the store
  before it: the list of records and the counter are the same.
\<close>

theorem update_delete_absent_id_unchanged: 
  assumes "\<forall>b \<in> set (repository.books st). id' b \<noteq> i"
  shows "updateBook i u st = (None, st) \<and> deleteBook i st = (False, st)"
proof -
  from assms have "findIndex (\<lambda>b. id' b = i) (repository.books st) = None"
    by (simp add: findIndex_None_iff)
  then have 1: "updateBook i u st = (None, st)"
    by (simp add: updateBook_def)
  from assms have "filter (\<lambda>b. id' b \<noteq> i) (repository.books st) = repository.books st"
    by (intro filter_absent) 
  then have 2: "deleteBook i st = (False, st)"
    by (simp add: deleteBook_def Let_def)
  from 1 2 show ?thesis ..
qed

theorem update_delete_absent_id_unchanged_witness:
  "7 \<notin> id' ` set (repository.books initialRepository) \<and>
   updateBook 7 \<lparr>IBookUpdateData.title = Some ''Emma'', author = None, yearOfRelease = None,
                  isbn = None\<rparr> initialRepository = (None, initialRepository) \<and>
   deleteBook 7 initialRepository = (False, initialRepository)"
proof -
  have n: "7 \<notin> id' ` set (repository.books initialRepository)"
    by (simp add: initialRepository_def initialBooks_def mkBook_def)
  then have h: "\<forall>b \<in> set (repository.books initialRepository). id' b \<noteq> 7"
    by (metis imageI)
  from update_delete_absent_id_unchanged [OF h] n show ?thesis
    by (intro conjI) simp_all
qed

text \<open>
  C2. For every record \<open>b\<close> of the store and every update payload \<open>u\<close>, \<open>updateBook\<close>
  called with the id of \<open>b\<close> replaces the first record \<open>old\<close> that has this id by a
  record \<open>new\<close> and returns \<open>new\<close>. A field of the payload that is absent, the empty
  string or 0 leaves the stored field as it was; a field that is a non-empty string or a
  number other than 0 becomes the new value of that field. The id and the borrowed
  status of \<open>new\<close> are those of \<open>old\<close>, whatever the payload is.
\<close>

theorem updateBook_merges_truthy_fields:
  assumes "b \<in> set (repository.books st)"
  shows "\<exists>k old new.
     findIndex (\<lambda>x. id' x = id' b) (repository.books st) = Some k \<and>
     k < length (repository.books st) \<and>
     old = repository.books st ! k \<and> id' old = id' b \<and>
     updateBook (id' b) u st = (Some new, st\<lparr>repository.books := (repository.books st)[k := new]\<rparr>) \<and>
     id' new = id' old \<and> IBook.isBorrowed new = IBook.isBorrowed old \<and>
     (IBookUpdateData.title u \<in> {None, Some []} \<longrightarrow> IBook.title new = IBook.title old) \<and>
     (\<forall>t. IBookUpdateData.title u = Some t \<and> t \<noteq> [] \<longrightarrow> IBook.title new = t) \<and>
     (IBookUpdateData.author u \<in> {None, Some []} \<longrightarrow> IBook.author new = IBook.author old) \<and>
     (\<forall>a. IBookUpdateData.author u = Some a \<and> a \<noteq> [] \<longrightarrow> IBook.author new = a) \<and>
     (IBookUpdateData.yearOfRelease u \<in> {None, Some 0} \<longrightarrow>
        IBook.yearOfRelease new = IBook.yearOfRelease old) \<and>
     (\<forall>y. IBookUpdateData.yearOfRelease u = Some y \<and> y \<noteq> 0 \<longrightarrow> IBook.yearOfRelease new = y) \<and>
     (IBookUpdateData.isbn u \<in> {None, Some []} \<longrightarrow> IBook.isbn new = IBook.isbn old) \<and>
     (\<forall>n. IBookUpdateData.isbn u = Some n \<and> n \<noteq> [] \<longrightarrow> IBook.isbn new = n)"
proof -
  from assms obtain k where k: "findIndex (\<lambda>x. id' x = id' b) (repository.books st) = Some k"
    using findIndex_member [of b "repository.books st" "\<lambda>x. id' x = id' b"] by auto
  from findIndex_Some [OF k]
  have kl: "k < length (repository.books st)" and kid: "id' (repository.books st ! k) = id' b"
    by simp_all
  define old where "old = repository.books st ! k"
  define new where "new = old\<lparr>IBook.title := orStr (IBookUpdateData.title u) (IBook.title old),
                         IBook.author := orStr (IBookUpdateData.author u) (IBook.author old),
                         IBook.yearOfRelease :=
                           orNum (IBookUpdateData.yearOfRelease u) (IBook.yearOfRelease old),
                         IBook.isbn := orStr (IBookUpdateData.isbn u) (IBook.isbn old)\<rparr>"
  have upd: "updateBook (id' b) u st =
      (Some new, st\<lparr>repository.books := (repository.books st)[k := new]\<rparr>)"
    using k by (simp add: updateBook_def Let_def old_def new_def)
  have frame: "id' new = id' old" "IBook.isBorrowed new = IBook.isBorrowed old"
    by (simp_all add: new_def)
  have t: "IBook.title new = orStr (IBookUpdateData.title u) (IBook.title old)"
    and a: "IBook.author new = orStr (IBookUpdateData.author u) (IBook.author old)"
    and y: "IBook.yearOfRelease new = orNum (IBookUpdateData.yearOfRelease u) (IBook.yearOfRelease old)"
    and n: "IBook.isbn new = orStr (IBookUpdateData.isbn u) (IBook.isbn old)"
    by (simp_all add: new_def)
  have ft: "(IBookUpdateData.title u \<in> {None, Some []} \<longrightarrow> IBook.title new = IBook.title old) \<and>
     (\<forall>t. IBookUpdateData.title u = Some t \<and> t \<noteq> [] \<longrightarrow> IBook.title new = t)"
    unfolding t by (auto simp: orStr_cases)
  have fa: "(IBookUpdateData.author u \<in> {None, Some []} \<longrightarrow> IBook.author new = IBook.author old) \<and>
     (\<forall>a. IBookUpdateData.author u = Some a \<and> a \<noteq> [] \<longrightarrow> IBook.author new = a)"
    unfolding a by (auto simp: orStr_cases)
  have fy: "(IBookUpdateData.yearOfRelease u \<in> {None, Some 0} \<longrightarrow>
        IBook.yearOfRelease new = IBook.yearOfRelease old) \<and>
     (\<forall>y. IBookUpdateData.yearOfRelease u = Some y \<and> y \<noteq> 0 \<longrightarrow> IBook.yearOfRelease new = y)"
    unfolding y by (auto simp: orNum_cases)
  have fn: "(IBookUpdateData.isbn u \<in> {None, Some []} \<longrightarrow> IBook.isbn new = IBook.isbn old) \<and>
     (\<forall>n. IBookUpdateData.isbn u = Some n \<and> n \<noteq> [] \<longrightarrow> IBook.isbn new = n)"
    unfolding n by (auto simp: orStr_cases)
  have o: "old = repository.books st ! k" "id' old = id' b"
    using kid by (simp_all add: old_def)
  show ?thesis
    apply (rule exI [of _ k])
    apply (rule exI [of _ old])
    apply (rule exI [of _ new])
    apply (intro conjI)
    apply (rule k kl o upd frame ft [THEN conjunct1] ft [THEN conjunct2]
             fa [THEN conjunct1] fa [THEN conjunct2] fy [THEN conjunct1] fy [THEN conjunct2]
             fn [THEN conjunct1] fn [THEN conjunct2])+
    done
qed

theorem updateBook_merges_truthy_fields_witness:
  "mkBook 104 ''The Hobbit'' ''J.R.R. Tolkien'' 1937 ''978-0618260300'' False
     \<in> set (repository.books initialRepository) \<and>
   fst (updateBook 104
          \<lparr>IBookUpdateData.title = Some ''There and Back Again'', author = Some [],
           yearOfRelease = Some 0, isbn = None\<rparr> initialRepository) =
     Some (mkBook 104 ''There and Back Again'' ''J.R.R. Tolkien'' 1937 ''978-0618260300'' False)"
proof -
  have h: "mkBook 104 ''The Hobbit'' ''J.R.R. Tolkien'' 1937 ''978-0618260300'' False
             \<in> set (repository.books initialRepository)"
    by (simp add: initialRepository_def initialBooks_def mkBook_def)
  have e: "fst (updateBook 104
          \<lparr>IBookUpdateData.title = Some ''There and Back Again'', author = Some [],
           yearOfRelease = Some 0, isbn = None\<rparr> initialRepository) =
     Some (mkBook 104 ''There and Back Again'' ''J.R.R. Tolkien'' 1937 ''978-0618260300'' False)"
    by (simp add: updateBook_def initialRepository_def initialBooks_def mkBook_def
          orStr_def orNum_def Let_def)
  from updateBook_merges_truthy_fields [OF h] h e show ?thesis
    by - (rule conjI, assumption+)
qed

text \<open>
  C5. In every state of the store (every state reached from the loaded module by calls
  of \<open>addBook\<close>, \<open>updateBook\<close> and \<open>deleteBook\<close>) and for every id: \<open>deleteBook\<close>
  reports whether the list of records is shorter after the call than before it; when a
  record of the store has the id, the call returns \<open>True\<close> and the store after it is the
  store before it without that one record, one record shorter; when no record has the
  id, the call returns \<open>False\<close>.
\<close>

theorem deleteBook_reports_removal:
  fixes ops i
  defines "st \<equiv> exec ops initialRepository"
  shows "(\<forall>b \<in> set (repository.books st). id' b = i \<longrightarrow>
            deleteBook i st = (True, st\<lparr>repository.books := remove1 b (repository.books st)\<rparr>) \<and>
            length (repository.books (snd (deleteBook i st))) + 1 = length (repository.books st)) \<and>
         ((\<forall>b \<in> set (repository.books st). id' b \<noteq> i) \<longrightarrow> fst (deleteBook i st) = False) \<and>
         fst (deleteBook i st) =
           (length (repository.books (snd (deleteBook i st))) < length (repository.books st))"
proof -
  have inv: "distinct (map id' (repository.books st))"
    using exec_inv [OF initial_inv, of ops] by (simp add: storeInv_def st_def)
  have present: "deleteBook i st = (True, st\<lparr>repository.books := remove1 b (repository.books st)\<rparr>) \<and>
         length (repository.books (snd (deleteBook i st))) + 1 = length (repository.books st)"
    if b: "b \<in> set (repository.books st)" and i: "id' b = i" for b
  proof -
    from remove1_filter_id [OF inv b] i
    have f: "filter (\<lambda>x. id' x \<noteq> i) (repository.books st) = remove1 b (repository.books st)"
      by simp
    from b have l: "length (remove1 b (repository.books st)) + 1 = length (repository.books st)"
      using length_pos_if_in_set [OF b] by (simp add: length_remove1)
    from f l show ?thesis by (simp add: deleteBook_def Let_def)
  qed
  have absent: "fst (deleteBook i st) = False" if "\<forall>b \<in> set (repository.books st). id' b \<noteq> i"
  proof -
    from that have "filter (\<lambda>b. id' b \<noteq> i) (repository.books st) = repository.books st"
      by (intro filter_absent)
    then show ?thesis by (simp add: deleteBook_def Let_def)
  qed
  have "fst (deleteBook i st) =
           (length (repository.books (snd (deleteBook i st))) < length (repository.books st))"
    by (simp add: deleteBook_def Let_def)
  with present absent show ?thesis by blast
qed

theorem deleteBook_reports_removal_witness:
  "mkBook 104 ''The Hobbit'' ''J.R.R. Tolkien'' 1937 ''978-0618260300'' False
     \<in> set (repository.books (exec [DeleteBook 101] initialRepository)) \<and>
   fst (deleteBook 104 (exec [DeleteBook 101] initialRepository)) = True \<and>
   length (repository.books (snd (deleteBook 104 (exec [DeleteBook 101] initialRepository)))) + 1 =
     length (repository.books (exec [DeleteBook 101] initialRepository)) \<and>
   101 \<notin> id' ` set (repository.books (exec [DeleteBook 101] initialRepository)) \<and>
   fst (deleteBook 101 (exec [DeleteBook 101] initialRepository)) = False"
proof -
  let ?st = "exec [DeleteBook 101] initialRepository"
  let ?b = "mkBook 104 ''The Hobbit'' ''J.R.R. Tolkien'' 1937 ''978-0618260300'' False"
  have st: "repository.books ?st = tl initialBooks"
    by (simp add: deleteBook_def initialRepository_def initialBooks_def mkBook_def Let_def)
  have h1: "?b \<in> set (repository.books ?st)"
    unfolding st by (simp add: initialBooks_def mkBook_def)
  have i1: "id' ?b = 104"
    by (simp add: mkBook_def)
  have n2: "101 \<notin> id' ` set (repository.books ?st)"
    unfolding st by (simp add: initialBooks_def mkBook_def)
  then have h2: "\<forall>b \<in> set (repository.books ?st). id' b \<noteq> 101"
    by (metis imageI)
  from deleteBook_reports_removal [of "[DeleteBook 101]" 104] h1 i1
  have p: "fst (deleteBook 104 ?st) = True \<and>
           length (repository.books (snd (deleteBook 104 ?st))) + 1 = length (repository.books ?st)"
    by auto
  from deleteBook_reports_removal [of "[DeleteBook 101]" 101] h2
  have a: "fst (deleteBook 101 ?st) = False"
    by blast
  from h1 p n2 a show ?thesis by blast
qed

text \<open>
  C3. In every state of the store, reached from the loaded module by any calls of
  \<open>addBook\<close>, \<open>updateBook\<close> and \<open>deleteBook\<close>, the ids of the records are pairwise
  different, and they still are after one more \<open>addBook\<close>. The counter starts at the
  largest preloaded id plus one. \<open>addBook\<close> gives the new record the current value of
  the counter as its id and adds one to the counter; that id is greater than every
  preloaded id, every id that an earlier \<open>addBook\<close> returned and every id in the store,
  and the ids returned by the calls of \<open>addBook\<close> increase strictly. The new record is
  not borrowed, carries the four fields of the input, is the last record of the store
  after the call, and is what the call returns.
\<close>

theorem addBook_fresh_id_unique_ids:
  fixes ops d
  defines "st \<equiv> exec ops initialRepository"
  defines "b \<equiv> fst (addBook d st)"
  defines "st' \<equiv> snd (addBook d st)"
  shows "distinct (map id' (repository.books st)) \<and>
         distinct (map id' (repository.books st')) \<and>
         (\<forall>j \<in> set (map id' initialBooks) \<union> set (assignedIds ops initialRepository)
                 \<union> set (map id' (repository.books st)). j < id' b) \<and>
         sorted_wrt (<) (assignedIds (ops @ [AddBook d]) initialRepository) \<and>
         nextBookId initialRepository = Max (set (map id' initialBooks)) + 1 \<and>
         id' b = nextBookId st \<and> nextBookId st' = nextBookId st + 1 \<and>
         IBook.isBorrowed b = False \<and>
         IBook.title b = IBookCreationData.title d \<and>
         IBook.author b = IBookCreationData.author d \<and>
         IBook.yearOfRelease b = IBookCreationData.yearOfRelease d \<and>
         IBook.isbn b = IBookCreationData.isbn d \<and>
         repository.books st' = repository.books st @ [b]"
proof -
  have inv: "storeInv st"
    unfolding st_def by (rule exec_inv [OF initial_inv])
  have st': "st' = step (AddBook d) st"
    by (simp add: st'_def)
  have inv': "storeInv st'"
    unfolding st' by (rule step_inv [OF inv])
  have idb: "id' b = nextBookId st"
    by (simp add: b_def addBook_def createBook_def)
  have fresh_init: "j < id' b" if "j \<in> set (map id' initialBooks)" for j
  proof -
    from that initial_inv have "j < nextBookId initialRepository"
      by (auto simp: storeInv_def initialRepository_def)
    also have "\<dots> \<le> nextBookId st"
      unfolding st_def by (rule exec_next_mono)
    finally show ?thesis by (simp add: idb)
  qed
  have fresh_assigned: "j < id' b" if "j \<in> set (assignedIds ops initialRepository)" for j
    using assignedIds_bounds [of ops initialRepository] that by (simp add: idb st_def)
  have fresh_present: "j < id' b" if "j \<in> set (map id' (repository.books st))" for j
    using inv that by (auto simp: storeInv_def idb)
  have fresh: "\<forall>j \<in> set (map id' initialBooks) \<union> set (assignedIds ops initialRepository)
                 \<union> set (map id' (repository.books st)). j < id' b"
    using fresh_init fresh_assigned fresh_present by blast
  have seed: "nextBookId initialRepository = Max (set (map id' initialBooks)) + 1"
    unfolding initial_next initial_max by simp
  have rest: "nextBookId st' = nextBookId st + 1" "IBook.isBorrowed b = False"
    "IBook.title b = IBookCreationData.title d" "IBook.author b = IBookCreationData.author d"
    "IBook.yearOfRelease b = IBookCreationData.yearOfRelease d"
    "IBook.isbn b = IBookCreationData.isbn d"
    "repository.books st' = repository.books st @ [b]"
    by (simp_all add: b_def st'_def addBook_def createBook_def)
  from inv inv' have d: "distinct (map id' (repository.books st))"
    "distinct (map id' (repository.books st'))"
    by (simp_all add: storeInv_def)
  have incr: "sorted_wrt (<) (assignedIds (ops @ [AddBook d]) initialRepository)"
    by (rule assignedIds_increasing)
  show ?thesis
    by (intro conjI) (rule d fresh incr seed idb rest)+
qed

theorem addBook_fresh_id_unique_ids_witness:
  "120 \<in> set (map id' initialBooks) \<and>
   121 \<in> set (assignedIds [AddBook \<lparr>IBookCreationData.title = ''Emma'', author = ''Jane Austen'',
                                       yearOfRelease = 1815, isbn = ''978-0141439587''\<rparr>,
                            DeleteBook 121] initialRepository) \<and>
   id' (fst (addBook \<lparr>IBookCreationData.title = ''Persuasion'', author = ''Jane Austen'',
                       yearOfRelease = 1817, isbn = ''978-0141439686''\<rparr>
          (exec [AddBook \<lparr>IBookCreationData.title = ''Emma'', author = ''Jane Austen'',
                           yearOfRelease = 1815, isbn = ''978-0141439587''\<rparr>,
                 DeleteBook 121] initialRepository))) = 122 \<and>
   (120 :: int) < 122 \<and> (121 :: int) < 122"
proof -
  let ?ops = "[AddBook \<lparr>IBookCreationData.title = ''Emma'', author = ''Jane Austen'',
                         yearOfRelease = 1815, isbn = ''978-0141439587''\<rparr>, DeleteBook 121]"
  let ?d = "\<lparr>IBookCreationData.title = ''Persuasion'', author = ''Jane Austen'',
             yearOfRelease = 1817, isbn = ''978-0141439686''\<rparr>"
  let ?b = "fst (addBook ?d (exec ?ops initialRepository))"
  have m1: "120 \<in> set (map id' initialBooks)"
    by code_simp
  have m2: "121 \<in> set (assignedIds ?ops initialRepository)"
    by code_simp
  have v: "id' ?b = 122"
    by code_simp
  from addBook_fresh_id_unique_ids [of ?ops ?d] m1 m2
  have "120 < id' ?b" "121 < id' ?b"
    by blast+
  with m1 m2 v show ?thesis
    by simp
qed

text \<open>
  C8. On the preloaded store, before any change, the query with the author filter
  \<open>tolkien\<close>, page 1 and page size 2 returns two books, The Hobbit and The Fellowship
  of the Ring, both by J.R.R. Tolkien, with 3 total items and 2 total pages; the route
  \<^verbatim>\<open>GET /api/books?author=tolkien&page=1&size=2\<close> answers 200 with that result.
\<close>

theorem tolkien_first_page:
  "getBooksPaginatedAndFiltered (noFilters\<lparr>filters.author := Some ''tolkien''\<rparr>) 1 2
     initialRepository =
     \<lparr>IBookResponse.books =
        [mkBook 104 ''The Hobbit'' ''J.R.R. Tolkien'' 1937 ''978-0618260300'' False,
         mkBook 107 ''The Fellowship of the Ring'' ''J.R.R. Tolkien'' 1954 ''978-0618346257'' True],
      pagination = \<lparr>totalItems = 3, totalPages = Finite 2, currentPage = 1, pageSize = 2\<rparr>\<rparr> \<and>
   listBooksRoute \<lparr>IBookQuery.title = None, author = Some ''tolkien'', year = None,
                   isBorrowed = None, page = Some ''1'', size = Some ''2''\<rparr> initialRepository =
     json 200 (ListBody
       (getBooksPaginatedAndFiltered (noFilters\<lparr>filters.author := Some ''tolkien''\<rparr>) 1 2
          initialRepository))"
  by code_simp




text \<open>
  C10. When the borrowed filter is defined, with the string \<open>s\<close>, the query keeps of the
  records that pass the other filters exactly those whose borrowed status equals the
  truth value of ``\<open>s\<close> in lower case is \<open>true\<close>''. That truth value holds exactly when \<open>s\<close>
  has four characters, the first \<open>t\<close> or \<open>T\<close>, the second \<open>r\<close> or \<open>R\<close>, the third \<open>u\<close> or
  \<open>U\<close>, the fourth \<open>e\<close> or \<open>E\<close>. For every other string, the empty one included, every
  record in the filtered list and in the returned page is one that is not borrowed:
  the value is neither rejected nor ignored.
\<close>

theorem isBorrowed_filter_true_only:
  assumes "filters.isBorrowed f = Some s"
  shows "applyFilters f bs =
           filter (\<lambda>b. IBook.isBorrowed b = (toLowerCase s = ''true''))
             (applyFilters (f\<lparr>filters.isBorrowed := None\<rparr>) bs) \<and>
         (toLowerCase s = ''true'') =
           list_all2 (\<lambda>c l. c \<in> set l) s [''tT'', ''rR'', ''uU'', ''eE''] \<and>
         (\<forall>b \<in> set (IBookResponse.books (getBooksPaginatedAndFiltered f pg pgSize st)).
            IBook.isBorrowed b = (toLowerCase s = ''true'')) \<and>
         (toLowerCase s \<noteq> ''true'' \<longrightarrow>
            (\<forall>b \<in> set (IBookResponse.books (getBooksPaginatedAndFiltered f pg pgSize st)).
               \<not> IBook.isBorrowed b))"
proof -
  have eq: "applyFilters f xs =
           filter (\<lambda>b. IBook.isBorrowed b = (toLowerCase s = ''true''))
             (applyFilters (f\<lparr>filters.isBorrowed := None\<rparr>) xs)" for xs
    using assms by (simp add: applyFilters_def Let_def)
  have page: "IBook.isBorrowed b = (toLowerCase s = ''true'')"
    if "b \<in> set (IBookResponse.books (getBooksPaginatedAndFiltered f pg pgSize st))" for b
  proof -
    from that have "b \<in> set (slice (applyFilters f (repository.books st))
                        ((pg - 1) * pgSize) ((pg - 1) * pgSize + pgSize))"
      by (simp add: getBooksPaginatedAndFiltered_def Let_def)
    then have "b \<in> set (applyFilters f (repository.books st))"
      by (rule subsetD [OF set_slice])
    then show ?thesis
      by (simp add: eq [of "repository.books st"])
  qed
  from eq [of bs] toLowerCase_true [of s] page show ?thesis
    by blast
qed

theorem isBorrowed_filter_true_only_witness:
  "filters.isBorrowed (noFilters\<lparr>filters.isBorrowed := Some ''banana''\<rparr>) = Some ''banana'' \<and>
   toLowerCase ''banana'' \<noteq> ''true'' \<and>
   mkBook 101 ''The Great Gatsby'' ''F. Scott Fitzgerald'' 1925 ''978-0743273565'' False
     \<in> set (IBookResponse.books (getBooksPaginatedAndFiltered
               (noFilters\<lparr>filters.isBorrowed := Some ''banana''\<rparr>) 1 10 initialRepository)) \<and>
   True \<notin> IBook.isBorrowed ` set (IBookResponse.books (getBooksPaginatedAndFiltered
               (noFilters\<lparr>filters.isBorrowed := Some ''banana''\<rparr>) 1 10 initialRepository))"
proof -
  let ?f = "noFilters\<lparr>filters.isBorrowed := Some ''banana''\<rparr>"
  have h: "filters.isBorrowed ?f = Some ''banana''"
    by simp
  have n: "toLowerCase ''banana'' \<noteq> ''true''"
    by code_simp
  have m: "mkBook 101 ''The Great Gatsby'' ''F. Scott Fitzgerald'' 1925 ''978-0743273565'' False
     \<in> set (IBookResponse.books (getBooksPaginatedAndFiltered ?f 1 10 initialRepository))"
    by code_simp
  from isBorrowed_filter_true_only [OF h, of _ 1 10 initialRepository] n
  have "\<forall>b \<in> set (IBookResponse.books (getBooksPaginatedAndFiltered ?f 1 10 initialRepository)).
          \<not> IBook.isBorrowed b"
    by blast
  then have "True \<notin> IBook.isBorrowed ` set (IBookResponse.books
      (getBooksPaginatedAndFiltered ?f 1 10 initialRepository))"
    by auto
  with h n m show ?thesis
    by blast
qed









end
